theory Spec2Isabelle
  imports Complex_Main "HOL-Library.Word"
begin

section \<open>The voice agent of \<open>02-voice/src/app/page.tsx\<close>\<close>

text \<open>
  The component \<open>Home\<close> keeps its working state in React refs and reacts to callbacks
  that the browser runs one at a time on a single event loop: a microphone frame
  (\<open>processor.onaudioprocess\<close>), a message of the socket (\<open>ws.onmessage\<close>), the end of
  an audio source (\<open>source.onended\<close>), a click (\<open>interrupt\<close>, \<open>onConnect\<close>), the closing
  of the socket (\<open>ws.onclose\<close>). Each callback is a function from the state to the
  state. What a callback does to the outside (a message handed to the socket, an audio
  source started or stopped, a line on the console) is appended to a trace kept in the
  state, so that the order of these effects can be stated.
\<close>

subsection \<open>Data\<close>

type_synonym byte = "8 word"
type_synonym int16 = "16 word"

text \<open>A JavaScript number: a finite value, an infinity or NaN. Finite values are kept
  as rationals; the sign of zero is not kept.\<close>

datatype js_number = Finite rat | PInf | NInf | NaN

text \<open>\<open>WebSocket.readyState\<close>.\<close>

datatype ready_state = CONNECTING | OPEN | CLOSING | CLOSED

text \<open>The messages the client hands to \<open>ws.send\<close> in the functions modelled here. The
  payload of \<open>input_audio_buffer.append\<close> is kept as the bytes that are base64-encoded.\<close>

datatype client_msg =
    ResponseCancel
  | OutputAudioBufferClear
  | InputAudioBufferAppend "byte list"

text \<open>The exceptions of the platform functions used.\<close>

datatype dom_exception =
    InvalidCharacterError
  | RangeError
  | InvalidStateError
  | NotSupportedError

text \<open>The console lines of the barge-in path and of the error handler of
  \<open>playAudioDelta\<close>; an exception that leaves an \<open>async\<close> function nobody awaits
  is an unhandled rejection.\<close>

datatype console_line =
    UserSpeechDetected
  | BargeInInterrupting
  | InterruptComplete
  | AudioPlaybackError dom_exception

datatype effect =
    Send client_msg
  | SourceStart nat "js_number list"
  | SourceStop nat
  | Console console_line
  | UnhandledRejection dom_exception

text \<open>
  The refs and the React state of \<open>Home\<close>, and the part of the browser they act on.
  \<^item> \<open>ws\<close> is \<open>wsRef.current\<close>: \<open>None\<close> for \<open>null\<close>, else the socket's \<open>readyState\<close>.
  \<^item> \<open>audioContext\<close> tells whether \<open>audioContextRef.current\<close> is set.
  \<^item> \<open>currentAudioSource\<close> holds the number of the source node in
    \<open>currentAudioSourceRef.current\<close>; source nodes are numbered as they are created.
  \<^item> \<open>sounding\<close> lists the sources that were started and have neither run to their end
    nor been stopped; \<open>awaiting\<close> lists the sources whose \<open>onended\<close> a suspended run of
    \<open>playAudioQueue\<close> is waiting for.
\<close>

record state =
  ws :: "ready_state option"
  audioContext :: bool
  audioQueue :: "int16 list list"
  isPlaying :: bool
  isAssistantSpeaking :: bool
  currentAudioSource :: "nat option"
  lastInterruptTime :: int
  speechFrames :: int
  connected :: bool
  isListening :: bool
  isAssistantSpeakingUI :: bool
  nextSourceId :: nat
  sounding :: "nat list"
  awaiting :: "nat list"
  effects :: "effect list"

definition ws_open :: "state \<Rightarrow> bool" where
  "ws_open s = (ws s = Some OPEN)"

definition emit :: "effect \<Rightarrow> state \<Rightarrow> state" where
  "emit e s = s\<lparr>effects := effects s @ [e]\<rparr>"

text \<open>The messages sent so far, in order.\<close>

fun sent_of :: "effect list \<Rightarrow> client_msg list" where
  "sent_of [] = []"
| "sent_of (Send m # es) = m # sent_of es"
| "sent_of (_ # es) = sent_of es"

definition sent :: "state \<Rightarrow> client_msg list" where
  "sent s = sent_of (effects s)"

subsection \<open>Stopping a source\<close>

text \<open>
  \<open>AudioBufferSourceNode.stop()\<close> throws \<open>InvalidStateError\<close> on a node that was never
  started. \<open>playAudioQueue\<close> starts every node in the synchronous block that creates
  it, so the started nodes are those numbered below \<open>nextSourceId\<close>. A stopped node is
  silent at once; its \<open>onended\<close> handler runs later, as a callback of its own.
\<close>

definition source_stop :: "nat \<Rightarrow> state \<Rightarrow> dom_exception + state" where
  "source_stop src s =
     (if src < nextSourceId s
      then Inr (emit (SourceStop src) (s\<lparr>sounding := removeAll src (sounding s)\<rparr>))
      else Inl InvalidStateError)"

subsection \<open>\<open>interrupt\<close>\<close>

text \<open>\<open>now\<close> is the value of \<open>Date.now()\<close> read by the call.\<close>

definition stop_current :: "state \<Rightarrow> state" where
  "stop_current s =
     (case currentAudioSource s of
        None \<Rightarrow> s
      | Some src \<Rightarrow>
          (case source_stop src s of
             Inl e \<Rightarrow> s
           | Inr s' \<Rightarrow> s'\<lparr>currentAudioSource := None\<rparr>))"

definition interrupt :: "int \<Rightarrow> state \<Rightarrow> state" where
  "interrupt now s =
     (if ws_open s then
        if now - lastInterruptTime s < 500 then s
        else
          let s1 = s\<lparr>lastInterruptTime := now\<rparr>;
              s2 = emit (Console BargeInInterrupting) s1;
              s3 = emit (Send ResponseCancel) s2;
              s4 = emit (Send OutputAudioBufferClear) s3;
              s5 = stop_current s4;
              s6 = s5\<lparr>audioQueue := [], isPlaying := False,
                      isAssistantSpeaking := False, speechFrames := 0\<rparr>
          in emit (Console InterruptComplete) s6
      else s)"

subsection \<open>Arithmetic on JavaScript numbers\<close>

text \<open>
  The operators the modelled code applies to numbers, on the values of \<open>js_number\<close>.
  The sum, product and quotient of finite values are the exact ones here; the rounding
  of the result to a double, and of a stored sample to a float32, is applied where the
  code computes (\<open>to_double\<close> and \<open>to_float32\<close> below).
\<close>

fun js_less :: "js_number \<Rightarrow> js_number \<Rightarrow> bool" where
  "js_less NaN b = False"
| "js_less a NaN = False"
| "js_less (Finite x) (Finite y) = (x < y)"
| "js_less (Finite x) PInf = True"
| "js_less (Finite x) NInf = False"
| "js_less NInf NInf = False"
| "js_less NInf b = True"
| "js_less PInf b = False"

fun Math_min :: "js_number \<Rightarrow> js_number \<Rightarrow> js_number" where
  "Math_min NaN b = NaN"
| "Math_min a NaN = NaN"
| "Math_min a b = (if js_less b a then b else a)"

fun Math_max :: "js_number \<Rightarrow> js_number \<Rightarrow> js_number" where
  "Math_max NaN b = NaN"
| "Math_max a NaN = NaN"
| "Math_max a b = (if js_less a b then b else a)"

fun Math_abs :: "js_number \<Rightarrow> js_number" where
  "Math_abs (Finite x) = Finite \<bar>x\<bar>"
| "Math_abs PInf = PInf"
| "Math_abs NInf = PInf"
| "Math_abs NaN = NaN"

fun js_plus :: "js_number \<Rightarrow> js_number \<Rightarrow> js_number" where
  "js_plus NaN b = NaN"
| "js_plus a NaN = NaN"
| "js_plus (Finite x) (Finite y) = Finite (x + y)"
| "js_plus PInf NInf = NaN"
| "js_plus NInf PInf = NaN"
| "js_plus (Finite x) b = b"
| "js_plus a b = a"

fun js_times :: "js_number \<Rightarrow> js_number \<Rightarrow> js_number" where
  "js_times NaN b = NaN"
| "js_times a NaN = NaN"
| "js_times (Finite x) (Finite y) = Finite (x * y)"
| "js_times (Finite x) PInf = (if x = 0 then NaN else if 0 < x then PInf else NInf)"
| "js_times (Finite x) NInf = (if x = 0 then NaN else if 0 < x then NInf else PInf)"
| "js_times PInf (Finite y) = (if y = 0 then NaN else if 0 < y then PInf else NInf)"
| "js_times NInf (Finite y) = (if y = 0 then NaN else if 0 < y then NInf else PInf)"
| "js_times PInf PInf = PInf"
| "js_times NInf NInf = PInf"
| "js_times PInf NInf = NInf"
| "js_times NInf PInf = NInf"

fun js_divide :: "js_number \<Rightarrow> js_number \<Rightarrow> js_number" where
  "js_divide NaN b = NaN"
| "js_divide a NaN = NaN"
| "js_divide (Finite x) (Finite y) =
     (if y = 0 then (if x = 0 then NaN else if 0 < x then PInf else NInf)
      else Finite (x / y))"
| "js_divide (Finite x) b = Finite 0"
| "js_divide PInf (Finite y) = (if 0 \<le> y then PInf else NInf)"
| "js_divide NInf (Finite y) = (if 0 \<le> y then NInf else PInf)"
| "js_divide a b = NaN"

subsection \<open>\<open>convertToPCM16\<close>\<close>

text \<open>
  \<open>DataView.setInt16\<close> converts its argument with ToInt16: NaN and the infinities
  give 0, a finite value is truncated towards zero and taken modulo \<open>2^16\<close>.
\<close>

definition truncate :: "rat \<Rightarrow> int" where
  "truncate x = (if x < 0 then - \<lfloor>- x\<rfloor> else \<lfloor>x\<rfloor>)"

fun ToInt16 :: "js_number \<Rightarrow> int16" where
  "ToInt16 (Finite x) = word_of_int (truncate x)"
| "ToInt16 n = 0"

text \<open>The body of the loop of \<open>convertToPCM16\<close>: the clamped sample \<open>s\<close> and the value
  \<open>s < 0 ? s * 0x8000 : s * 0x7fff\<close> handed to \<open>setInt16\<close>. The samples come from a
  \<open>Float32Array\<close>; the product of a float32 with either factor has at most 40
  significant bits and is exact in double precision.\<close>

definition scale_sample :: "js_number \<Rightarrow> js_number" where
  "scale_sample x =
     (let s = Math_max (Finite (- 1)) (Math_min (Finite 1) x)
      in if js_less s (Finite 0) then js_times s (Finite 32768)
         else js_times s (Finite 32767))"

definition sample_to_int16 :: "js_number \<Rightarrow> int16" where
  "sample_to_int16 x = ToInt16 (scale_sample x)"

text \<open>\<open>setInt16(offset, v, true)\<close> stores the low byte first.\<close>

definition int16_bytes :: "int16 \<Rightarrow> byte list" where
  "int16_bytes w = [ucast w, ucast (drop_bit 8 w)]"

definition convertToPCM16 :: "js_number list \<Rightarrow> byte list" where
  "convertToPCM16 float32Array = concat (map (\<lambda>x. int16_bytes (sample_to_int16 x)) float32Array)"

subsection \<open>Rounding to a binary floating-point format\<close>

text \<open>
  \<open>playAudioQueue\<close> divides each sample in double precision and stores the quotient in a
  \<open>Float32Array\<close>, which rounds it to single precision. Both roundings are to the
  nearest value of the format, ties to the even significand (IEEE 754). A format is
  given by its precision \<open>p\<close> and its least and greatest exponent: 53, -1022 and 1023
  for a double, 24, -126 and 127 for a float32.
\<close>

definition pow2 :: "int \<Rightarrow> rat" where
  "pow2 k = 2 powi k"

text \<open>The exponent of the binade of \<open>x\<close>, searched downwards from \<open>e\<close> and no lower than
  \<open>lo\<close> (below \<open>2 ^ lo\<close> the values are subnormal and share the spacing of that binade).\<close>

function binade :: "rat \<Rightarrow> int \<Rightarrow> int \<Rightarrow> int" where
  "binade x e lo = (if e \<le> lo \<or> pow2 e \<le> x then e else binade x (e - 1) lo)"
  by pat_completeness auto
termination
  by (relation "measure (\<lambda>(x, e, lo). nat (e - lo))") auto

definition round_half_even :: "rat \<Rightarrow> int" where
  "round_half_even x =
     (let f = \<lfloor>x\<rfloor>; d = x - of_int f
      in if d < 1 / 2 then f
         else if 1 / 2 < d then f + 1
         else if even f then f else f + 1)"

definition round_binary :: "nat \<Rightarrow> int \<Rightarrow> int \<Rightarrow> rat \<Rightarrow> js_number" where
  "round_binary p emin emax x =
     (let e = binade \<bar>x\<bar> emax emin;
          q = pow2 (e - int p + 1);
          r = of_int (round_half_even (x / q)) * q
      in if pow2 (emax + 1) \<le> \<bar>r\<bar> then (if x < 0 then NInf else PInf)
         else Finite r)"

fun to_double :: "js_number \<Rightarrow> js_number" where
  "to_double (Finite x) = round_binary 53 (- 1022) 1023 x"
| "to_double n = n"

fun to_float32 :: "js_number \<Rightarrow> js_number" where
  "to_float32 (Finite x) = round_binary 24 (- 126) 127 x"
| "to_float32 n = n"

text \<open>The loop of \<open>playAudioQueue\<close> that fills the \<open>Float32Array\<close>:
  \<open>float32[i] = pcm16[i] / (pcm16[i] < 0 ? 0x8000 : 0x7fff)\<close>.\<close>

definition int16_to_float32 :: "int16 \<Rightarrow> js_number" where
  "int16_to_float32 v =
     to_float32 (to_double (js_divide (Finite (of_int (sint v)))
                              (Finite (if sint v < 0 then 32768 else 32767))))"

definition decode_chunk :: "int16 list \<Rightarrow> js_number list" where
  "decode_chunk pcm16 = map int16_to_float32 pcm16"

subsection \<open>The playback queue\<close>

text \<open>
  \<open>atob\<close> throws \<open>InvalidCharacterError\<close> on a string that is not base64; the payload of an
  audio delta is represented by what \<open>atob\<close> makes of it. \<open>new Int16Array(buffer)\<close> throws
  \<open>RangeError\<close> unless the byte length is even, and reads each sample low byte first.
  \<open>createBuffer\<close> throws \<open>NotSupportedError\<close> when asked for a buffer of no frames.
\<close>

datatype base64 = Base64 "byte list" | NotBase64

fun atob :: "base64 \<Rightarrow> dom_exception + byte list" where
  "atob (Base64 bytes) = Inr bytes"
| "atob NotBase64 = Inl InvalidCharacterError"

fun int16_of_bytes :: "byte list \<Rightarrow> int16 list" where
  "int16_of_bytes (lo # hi # bytes) = word_cat hi lo # int16_of_bytes bytes"
| "int16_of_bytes bytes = []"

definition Int16Array :: "byte list \<Rightarrow> dom_exception + int16 list" where
  "Int16Array bytes =
     (if even (length bytes) then Inr (int16_of_bytes bytes) else Inl RangeError)"

definition createBuffer :: "nat \<Rightarrow> dom_exception + unit" where
  "createBuffer len = (if len = 0 then Inl NotSupportedError else Inr ())"

text \<open>
  \<open>playAudioQueue\<close> is an \<open>async\<close> function: it runs until its \<open>await\<close> and is resumed by
  the \<open>onended\<close> callback of the source it started. \<open>consume\<close> is the run from the head of
  the \<open>while\<close> loop to the next \<open>await\<close> or to the end of the function. An exception in
  it rejects the promise of the function, which no caller awaits: the run ends there
  and the statements after the loop are not reached.
\<close>

definition consume :: "state \<Rightarrow> state" where
  "consume s =
     (case audioQueue s of
        [] \<Rightarrow> s\<lparr>isPlaying := False\<rparr>
      | pcm16 # rest \<Rightarrow>
          let s1 = s\<lparr>audioQueue := rest\<rparr>;
              float32 = decode_chunk pcm16
          in (case createBuffer (length float32) of
                Inl e \<Rightarrow> emit (UnhandledRejection e) s1
              | Inr _ \<Rightarrow>
                  let src = nextSourceId s1
                  in emit (SourceStart src float32)
                       (s1\<lparr>nextSourceId := Suc src,
                           currentAudioSource := Some src,
                           sounding := sounding s1 @ [src],
                           awaiting := awaiting s1 @ [src]\<rparr>)))"

definition playAudioQueue :: "state \<Rightarrow> state" where
  "playAudioQueue s =
     (if \<not> audioContext s \<or> audioQueue s = [] then s\<lparr>isPlaying := False\<rparr>
      else consume (s\<lparr>isPlaying := True\<rparr>))"

text \<open>The \<open>onended\<close> callback of source \<open>src\<close>: the source is silent (it ran to its end or
  was stopped), and the run of \<open>playAudioQueue\<close> that awaits it goes on.\<close>

definition source_onended :: "nat \<Rightarrow> state \<Rightarrow> state" where
  "source_onended src s =
     (if src \<in> set (awaiting s) then
        let s1 = s\<lparr>sounding := removeAll src (sounding s),
                   awaiting := removeAll src (awaiting s)\<rparr>;
            s2 = (if currentAudioSource s1 = Some src
                  then s1\<lparr>currentAudioSource := None\<rparr> else s1)
        in consume s2
      else s)"

definition playAudioDelta :: "base64 \<Rightarrow> state \<Rightarrow> state" where
  "playAudioDelta delta s =
     (case atob delta of
        Inl e \<Rightarrow> emit (Console (AudioPlaybackError e)) s
      | Inr bytes \<Rightarrow>
          (case Int16Array bytes of
             Inl e \<Rightarrow> emit (Console (AudioPlaybackError e)) s
           | Inr pcm16 \<Rightarrow>
               let s1 = s\<lparr>audioQueue := audioQueue s @ [pcm16]\<rparr>
               in if \<not> isPlaying s1 then playAudioQueue s1 else s1))"

subsection \<open>The detector in \<open>processor.onaudioprocess\<close>\<close>

text \<open>\<open>REALTIME_CONFIG.bargeIn\<close> of \<open>config/realtime.ts\<close>. The literal \<open>0.02\<close> denotes the
  double nearest to it.\<close>

definition speechThreshold :: js_number where
  "speechThreshold = to_double (Finite (2 / 100))"

definition consecutiveFrames :: int where
  "consecutiveFrames = 2"

text \<open>The mean of the absolute values of the samples, as the loop computes it in
  doubles: every \<open>sum += Math.abs(inputData[i])\<close> rounds the sum, and so does the division
  by the length. An empty frame gives \<open>0 / 0\<close>.\<close>

definition average :: "js_number list \<Rightarrow> js_number" where
  "average inputData =
     to_double
       (js_divide
          (foldl (\<lambda>sum x. to_double (js_plus sum (Math_abs x))) (Finite 0) inputData)
          (Finite (of_nat (length inputData))))"

text \<open>The block that follows the computation of \<open>average\<close>. The call of \<open>interrupt\<close> is
  the trigger; the console line before it marks it in the trace.\<close>

definition detect :: "int \<Rightarrow> js_number \<Rightarrow> state \<Rightarrow> state" where
  "detect now avg s =
     (if isAssistantSpeaking s then
        if js_less speechThreshold avg then
          let s1 = s\<lparr>speechFrames := speechFrames s + 1\<rparr>
          in if consecutiveFrames \<le> speechFrames s1
             then interrupt now (emit (Console UserSpeechDetected) s1)
             else s1
        else if 0 < speechFrames s
             then s\<lparr>speechFrames := max 0 (speechFrames s - 1)\<rparr>
             else s
      else s\<lparr>speechFrames := 0\<rparr>)"

definition onaudioprocess :: "int \<Rightarrow> js_number list \<Rightarrow> state \<Rightarrow> state" where
  "onaudioprocess now inputData s =
     (if ws_open s then
        emit (Send (InputAudioBufferAppend (convertToPCM16 inputData)))
             (detect now (average inputData) s)
      else s)"

text \<open>The number of triggers in a trace.\<close>

definition triggers :: "effect list \<Rightarrow> nat" where
  "triggers es = length (filter (\<lambda>e. e = Console UserSpeechDetected) es)"

subsection \<open>The handlers of the socket\<close>

text \<open>
  The events of \<open>ws.onmessage\<close> by their \<open>type\<close>. The transcript, the error text and the
  tool calls (\<open>handleFunctionCall\<close>) touch none of the fields kept in \<open>state\<close> and send
  neither \<open>response.cancel\<close> nor \<open>output_audio_buffer.clear\<close>; their events leave the
  state as it is.
\<close>

datatype server_event =
    SessionCreated
  | SessionUpdated
  | InputSpeechStarted
  | InputSpeechStopped
  | InputCommitted
  | ConversationItemCreated
  | ResponseCreated
  | ResponseAudioDelta base64
  | ResponseAudioTranscriptDelta
  | InputAudioTranscriptionCompleted
  | ResponseDone
  | ResponseAudioDone
  | ResponseCancelled
  | FunctionCallArgumentsDelta
  | FunctionCallArgumentsDone
  | ErrorEvent
  | OtherEvent

fun ws_onmessage :: "server_event \<Rightarrow> state \<Rightarrow> state" where
  "ws_onmessage InputSpeechStarted s = s\<lparr>isListening := True\<rparr>"
| "ws_onmessage ResponseCreated s =
     s\<lparr>isAssistantSpeaking := True, isAssistantSpeakingUI := True\<rparr>"
| "ws_onmessage (ResponseAudioDelta delta) s =
     playAudioDelta delta (s\<lparr>isAssistantSpeaking := True\<rparr>)"
| "ws_onmessage ResponseDone s =
     s\<lparr>isAssistantSpeaking := False, isAssistantSpeakingUI := False\<rparr>"
| "ws_onmessage ResponseAudioDone s =
     s\<lparr>isAssistantSpeaking := False, isAssistantSpeakingUI := False\<rparr>"
| "ws_onmessage ResponseCancelled s =
     s\<lparr>isAssistantSpeaking := False, isAssistantSpeakingUI := False\<rparr>"
| "ws_onmessage ev s = s"

definition ws_onerror :: "state \<Rightarrow> state" where
  "ws_onerror s = s"

definition ws_onclose :: "state \<Rightarrow> state" where
  "ws_onclose s = s\<lparr>connected := False, isListening := False\<rparr>"

text \<open>
  The branch of \<open>onConnect\<close> taken when \<open>connected\<close> holds (the Disconnect button).
  Closing the audio context silences every source; \<open>ws.close()\<close> leaves the socket in
  the state \<open>CLOSING\<close> unless it is closed already.
\<close>

definition onConnect_disconnect :: "int \<Rightarrow> state \<Rightarrow> state" where
  "onConnect_disconnect now s =
     (let s1 = interrupt now s;
          s2 = (if audioContext s1 then s1\<lparr>sounding := []\<rparr> else s1);
          s3 = s2\<lparr>ws := map_option (\<lambda>r. if r = CLOSED then CLOSED else CLOSING) (ws s2)\<rparr>
      in s3\<lparr>connected := False, isListening := False,
             isAssistantSpeakingUI := False, isAssistantSpeaking := False\<rparr>)"

subsection \<open>The event loop\<close>

text \<open>
  What the browser can run next. A message is delivered only while the socket is open;
  the Interrupt button is shown while \<open>connected\<close> and enabled while the React state
  \<open>isAssistantSpeaking\<close> holds; when the socket closes, its \<open>readyState\<close> is \<open>CLOSED\<close>
  before \<open>onclose\<close> runs.
\<close>

datatype event =
    AudioProcess int "js_number list"
  | ClickInterrupt int
  | Message server_event
  | SourceEnded nat
  | SocketError
  | SocketClosed
  | ClickDisconnect int

fun step :: "state \<Rightarrow> event \<Rightarrow> state" where
  "step s (AudioProcess now inputData) = onaudioprocess now inputData s"
| "step s (ClickInterrupt now) =
     (if connected s \<and> isAssistantSpeakingUI s then interrupt now s else s)"
| "step s (Message ev) = (if ws_open s then ws_onmessage ev s else s)"
| "step s (SourceEnded src) = source_onended src s"
| "step s SocketError = ws_onerror s"
| "step s SocketClosed = ws_onclose (s\<lparr>ws := map_option (\<lambda>r. CLOSED) (ws s)\<rparr>)"
| "step s (ClickDisconnect now) = (if connected s then onConnect_disconnect now s else s)"

definition run :: "state \<Rightarrow> event list \<Rightarrow> state" where
  "run s evs = foldl step s evs"

text \<open>The state once the socket is open and \<open>initializeAudio\<close> has made the audio
  context: nothing queued, nothing playing, no interrupt yet.\<close>

definition ready :: state where
  "ready = \<lparr>ws = Some OPEN, audioContext = True, audioQueue = [], isPlaying = False,
            isAssistantSpeaking = False, currentAudioSource = None,
            lastInterruptTime = 0, speechFrames = 0, connected = True,
            isListening = True, isAssistantSpeakingUI = False, nextSourceId = 0,
            sounding = [], awaiting = [], effects = []\<rparr>"

subsection \<open>The turn state of the specification\<close>

text \<open>
  The code keeps no turn state; the specification's \<open>ConversationTurnState\<close> is read off
  the refs: \<open>Idle\<close> while the socket is not open, \<open>AssistantTurn\<close> while it is open and
  \<open>isAssistantSpeakingRef\<close> holds, \<open>UserTurn\<close> otherwise. \<open>Interrupting\<close> lasts only
  within a call of \<open>interrupt\<close>, so no callback starts in it.
\<close>

datatype turn = Idle | UserTurn | AssistantTurn | Interrupting

definition turnState :: "state \<Rightarrow> turn" where
  "turnState s =
     (if \<not> ws_open s then Idle
      else if isAssistantSpeaking s then AssistantTurn
      else UserTurn)"

subsection \<open>Notions used in the properties\<close>

text \<open>The \<open>response.cancel\<close> and \<open>output_audio_buffer.clear\<close> messages sent so far.\<close>

definition teardown :: "state \<Rightarrow> client_msg list" where
  "teardown s = filter (\<lambda>m. m = ResponseCancel \<or> m = OutputAudioBufferClear) (sent s)"

text \<open>An event that calls \<open>interrupt\<close> reads the clock; \<open>within_cooldown t e\<close> says that
  the clock it reads is less than 500 ms after \<open>t\<close>.\<close>

fun within_cooldown :: "int \<Rightarrow> event \<Rightarrow> bool" where
  "within_cooldown t (AudioProcess now inputData) = (now - t < 500)"
| "within_cooldown t (ClickInterrupt now) = (now - t < 500)"
| "within_cooldown t (ClickDisconnect now) = (now - t < 500)"
| "within_cooldown t e = True"

text \<open>A frame above and a frame below the threshold.\<close>

definition voiced :: "js_number list \<Rightarrow> bool" where
  "voiced inputData = js_less speechThreshold (average inputData)"


definition loud :: "js_number list" where
  "loud = [Finite (1 / 2), Finite (- 1 / 2)]"


text \<open>A state in the middle of an assistant turn: four chunks have arrived, the first
  is sounding from source 0 and three are queued.\<close>

definition speaking :: state where
  "speaking = run ready [Message ResponseCreated, Message (ResponseAudioDelta (Base64 [1, 0])),
      Message (ResponseAudioDelta (Base64 [2, 0])), Message (ResponseAudioDelta (Base64 [3, 0])),
      Message (ResponseAudioDelta (Base64 [4, 0]))]"


text \<open>The detector triggers, the interrupt is executed at 1100, a trailing audio delta
  arrives and the user is still speaking.\<close>

definition retriggered :: "event list" where
  "retriggered = [Message ResponseCreated, AudioProcess 1000 loud, AudioProcess 1100 loud,
      Message (ResponseAudioDelta (Base64 [1, 0])), AudioProcess 1200 loud]"

text \<open>Three chunks arrive in an assistant turn, the first starts to play, and the user
  clicks Interrupt.\<close>

definition interrupted :: "event list" where
  "interrupted = [Message ResponseCreated, Message (ResponseAudioDelta (Base64 [1, 0])),
      Message (ResponseAudioDelta (Base64 [2, 0])), Message (ResponseAudioDelta (Base64 [3, 0])),
      ClickInterrupt 1000]"


text \<open>After the interrupt a trailing chunk arrives, then the \<open>onended\<close> callback of the
  stopped source, then another chunk.\<close>

definition overlapped :: "event list" where
  "overlapped = interrupted @
     [Message (ResponseAudioDelta (Base64 [4, 0])), SourceEnded 0,
      Message (ResponseAudioDelta (Base64 [5, 0]))]"

section \<open>Properties\<close>

subsection \<open>Rounding\<close>

lemma pow2_pos: "0 < pow2 k"
  by (simp add: pow2_def)

lemma pow2_mono: "a \<le> b \<Longrightarrow> pow2 a \<le> pow2 b"
  by (simp add: pow2_def power_int_increasing)

lemma pow2_less_imp: "pow2 a < pow2 b \<Longrightarrow> a < b"
  using pow2_mono [of b a] by (cases "a < b") auto

lemma pow2_add: "pow2 (a + b) = pow2 a * pow2 b"
  by (simp add: pow2_def power_int_add)

lemma pow2_nonneg_exp: "0 \<le> k \<Longrightarrow> pow2 k = 2 ^ nat k"
  by (simp add: pow2_def power_int_nonneg_exp)

lemma binade_le: "x < pow2 (k + 1) \<Longrightarrow> lo \<le> k \<Longrightarrow> binade x hi lo \<le> k"
proof (induction x hi lo rule: binade.induct)
  case (1 x e lo)
  show ?case
  proof (cases "e \<le> lo \<or> pow2 e \<le> x")
    case True
    then show ?thesis
    proof
      assume "e \<le> lo"
      with "1.prems" show ?thesis by simp
    next
      assume "pow2 e \<le> x"
      with "1.prems" have "pow2 e < pow2 (k + 1)" by simp
      then have "e < k + 1" by (rule pow2_less_imp)
      with \<open>pow2 e \<le> x\<close> show ?thesis by simp
    qed
  next
    case False
    with "1.IH" "1.prems" have "binade x (e - 1) lo \<le> k" by simp
    with False show ?thesis by simp
  qed
qed

lemma round_half_even_error: "\<bar>of_int (round_half_even y) - y\<bar> \<le> 1 / 2"
proof -
  have "of_int \<lfloor>y\<rfloor> \<le> y" and "y < of_int \<lfloor>y\<rfloor> + 1"
    by linarith+
  then show ?thesis
    by (auto simp add: round_half_even_def Let_def)
qed

lemma round_half_even_of_int: "round_half_even (of_int m) = m"
  by (simp add: round_half_even_def)

lemma round_binary_error:
  assumes x: "\<bar>x\<bar> < 2" and emin: "emin \<le> 0" and emax: "1 \<le> emax"
  shows "\<exists>r. round_binary p emin emax x = Finite r \<and> \<bar>r - x\<bar> \<le> pow2 (- int p)"
proof -
  define e where "e = binade \<bar>x\<bar> emax emin"
  define q where "q = pow2 (e - int p + 1)"
  define r where "r = of_int (round_half_even (x / q)) * q"
  have "\<bar>x\<bar> < pow2 (0 + 1)"
    using x by (simp add: pow2_def)
  from binade_le [OF this emin] have e: "e \<le> 0"
    by (simp add: e_def)
  have q0: "0 < q" by (simp add: q_def pow2_pos)
  have "q \<le> pow2 (1 - int p)"
    unfolding q_def using e by (intro pow2_mono) simp
  also have "pow2 (1 - int p) = 2 * pow2 (- int p)"
    using pow2_add [of 1 "- int p"] by (simp add: pow2_def)
  finally have q2: "q / 2 \<le> pow2 (- int p)" by simp
  have "r - x = (of_int (round_half_even (x / q)) - x / q) * q"
    using q0 by (simp add: r_def field_simps)
  then have "\<bar>r - x\<bar> = \<bar>of_int (round_half_even (x / q)) - x / q\<bar> * q"
    using q0 by (simp add: abs_mult)
  also have "\<dots> \<le> 1 / 2 * q"
    using round_half_even_error [of "x / q"] q0 by (intro mult_right_mono) simp_all
  finally have err: "\<bar>r - x\<bar> \<le> q / 2" by simp
  with q2 have err2: "\<bar>r - x\<bar> \<le> pow2 (- int p)" by simp
  have "pow2 (- int p) \<le> pow2 0"
    by (intro pow2_mono) simp
  then have "pow2 (- int p) \<le> 1" by (simp add: pow2_def)
  with err2 x have "\<bar>r\<bar> < 4" by linarith
  moreover have "pow2 2 \<le> pow2 (emax + 1)"
    using emax by (intro pow2_mono) simp
  then have "4 \<le> pow2 (emax + 1)" by (simp add: pow2_def)
  ultimately have "\<not> pow2 (emax + 1) \<le> \<bar>r\<bar>" by simp
  then have "round_binary p emin emax x = Finite r"
    unfolding round_binary_def Let_def r_def q_def e_def by (rule if_not_P)
  with err2 show ?thesis by blast
qed

lemma round_binary_exact:
  assumes x: "x = of_int n / 2 ^ 15" and x1: "\<bar>x\<bar> \<le> 1"
    and emin: "emin \<le> 0" and emax: "0 \<le> emax" and p: "16 \<le> p"
  shows "round_binary p emin emax x = Finite x"
proof -
  define e where "e = binade \<bar>x\<bar> emax emin"
  define q where "q = pow2 (e - int p + 1)"
  define r where "r = of_int (round_half_even (x / q)) * q"
  have "\<bar>x\<bar> < pow2 (0 + 1)"
    using x1 by (simp add: pow2_def)
  from binade_le [OF this emin] have e: "e \<le> 0"
    by (simp add: e_def)
  define j where "j = nat (int p - 16 - e)"
  have j: "int j = int p - 16 - e"
    using e p by (simp add: j_def)
  have q0: "0 < q" by (simp add: q_def pow2_pos)
  have "pow2 (int j + 15) * q = pow2 (int j + 15 + (e - int p + 1))"
    unfolding q_def by (rule pow2_add [symmetric])
  also have "\<dots> = 1"
    by (simp add: j pow2_def)
  finally have "q * 2 ^ (j + 15) = 1"
    using pow2_nonneg_exp [of "int j + 15"] by (simp add: nat_add_distrib mult.commute)
  then have qinv: "1 / q = 2 ^ (j + 15)"
    using q0 by (simp add: field_simps)
  have "x / q = x * (1 / q)" by simp
  also have "\<dots> = of_int n * 2 ^ j"
    by (simp add: qinv x power_add)
  also have "\<dots> = of_int (n * 2 ^ j)" by simp
  finally have xq: "x / q = of_int (n * 2 ^ j)" .
  have "r = x / q * q"
    unfolding r_def xq round_half_even_of_int ..
  then have r: "r = x" using q0 by simp
  have "pow2 0 \<le> pow2 (emax + 1)"
    using emax by (intro pow2_mono) simp
  moreover have "pow2 1 \<le> pow2 (emax + 1)"
    using emax by (intro pow2_mono) simp
  then have "2 \<le> pow2 (emax + 1)" by (simp add: pow2_def)
  with x1 have "\<not> pow2 (emax + 1) \<le> \<bar>r\<bar>" by (simp add: r)
  then have "round_binary p emin emax x = Finite r"
    unfolding round_binary_def Let_def r_def q_def e_def by (rule if_not_P)
  with r show ?thesis by simp
qed

lemma binade_eq:
  "lo \<le> e \<Longrightarrow> e \<le> hi \<Longrightarrow> pow2 e \<le> x \<Longrightarrow> x < pow2 (e + 1) \<Longrightarrow> binade x hi lo = e"
proof (induction x hi lo rule: binade.induct)
  case (1 x h lo)
  show ?case
  proof (cases "h \<le> lo \<or> pow2 h \<le> x")
    case True
    have "h \<le> e"
      using True
    proof
      assume "h \<le> lo"
      with "1.prems" show ?thesis by simp
    next
      assume "pow2 h \<le> x"
      with "1.prems" have "pow2 h < pow2 (e + 1)" by simp
      then have "h < e + 1" by (rule pow2_less_imp)
      then show ?thesis by simp
    qed
    with "1.prems" True show ?thesis by simp
  next
    case False
    with "1.prems" have "pow2 e < pow2 h" by simp
    then have "e < h" by (rule pow2_less_imp)
    with "1.IH" "1.prems" False have "binade x (h - 1) lo = e" by simp
    with False show ?thesis by simp
  qed
qed

lemma floor_rat_numeral: "\<lfloor>(numeral a :: rat) / numeral b\<rfloor> = numeral a div numeral b"
  using floor_divide_of_int_eq [of "numeral a" "numeral b", where ?'a = rat] by simp

lemma round_binary_eval:
  assumes "binade \<bar>x\<bar> emax emin = e"
    and "of_int (round_half_even (x / pow2 (e - int p + 1))) * pow2 (e - int p + 1) = r"
    and "\<bar>r\<bar> < 4" and "1 \<le> emax"
  shows "round_binary p emin emax x = Finite r"
proof -
  have "pow2 2 \<le> pow2 (emax + 1)"
    using assms(4) by (intro pow2_mono) simp
  then have "4 \<le> pow2 (emax + 1)" by (simp add: pow2_def)
  with assms(3) have "\<not> pow2 (emax + 1) \<le> \<bar>r\<bar>" by simp
  then show ?thesis
    unfolding round_binary_def Let_def assms(1) assms(2) by (rule if_not_P)
qed

subsection \<open>Evaluating runs\<close>

lemma length_decode_chunk: "length (decode_chunk pcm16) = length pcm16"
  by (simp add: decode_chunk_def)

lemma decode_chunk_Nil_iff: "decode_chunk pcm16 = [] \<longleftrightarrow> pcm16 = []"
  by (simp add: decode_chunk_def)

text \<open>The doubles met when the frames \<open>loud\<close> and \<open>soft\<close> are averaged, and the
  threshold.\<close>

lemma to_double_dyadic:
  assumes "x = of_int n / 2 ^ 15" and "\<bar>x\<bar> \<le> 1"
  shows "round_binary 53 (- 1022) 1023 x = Finite x"
  using round_binary_exact [OF assms, of "- 1022" 1023 53] by simp

lemma to_double_half: "round_binary 53 (- 1022) 1023 (1 / 2) = Finite (1 / 2)"
  by (rule to_double_dyadic [of _ 16384]) simp_all

lemma to_double_one: "round_binary 53 (- 1022) 1023 1 = Finite 1"
  by (rule to_double_dyadic [of _ 32768]) simp_all



lemma speechThreshold_eq:
  "speechThreshold = Finite (5764607523034235 / 288230376151711744)"
proof -
  have "binade \<bar>2 / 100\<bar> 1023 (- 1022) = - 6"
    by (rule binade_eq) (simp_all add: pow2_def)
  then have "round_binary 53 (- 1022) 1023 (2 / 100) =
      Finite (5764607523034235 / 288230376151711744)"
    by (rule round_binary_eval)
       (simp_all add: pow2_def round_half_even_def floor_rat_numeral)
  then show ?thesis by (simp add: speechThreshold_def)
qed

lemma average_loud: "average loud = Finite (1 / 2)"
  by (simp add: loud_def average_def to_double_half to_double_one)


lemma Int16Array_one: "Int16Array [1, 0] = Inr [1]"
  by (simp add: Int16Array_def word_cat_eq)

lemma Int16Array_two: "Int16Array [2, 0] = Inr [2]"
  by (simp add: Int16Array_def word_cat_eq)

lemma Int16Array_three: "Int16Array [3, 0] = Inr [3]"
  by (simp add: Int16Array_def word_cat_eq)

lemma Int16Array_four: "Int16Array [4, 0] = Inr [4]"
  by (simp add: Int16Array_def word_cat_eq)

lemma Int16Array_five: "Int16Array [5, 0] = Inr [5]"
  by (simp add: Int16Array_def word_cat_eq)

lemmas eval_defs = run_def ready_def ws_open_def onaudioprocess_def detect_def
      average_loud speechThreshold_eq consecutiveFrames_def emit_def interrupt_def Let_def
      stop_current_def source_stop_def playAudioDelta_def playAudioQueue_def consume_def
      createBuffer_def decode_chunk_Nil_iff source_onended_def ws_onclose_def
      Int16Array_one Int16Array_two Int16Array_three Int16Array_four Int16Array_five

lemma speaking_eq:
  "speaking =
     ready\<lparr>isAssistantSpeaking := True, isAssistantSpeakingUI := True, isPlaying := True,
       audioQueue := [[2], [3], [4]], currentAudioSource := Some 0,
       nextSourceId := 1, sounding := [0], awaiting := [0],
       effects := [SourceStart 0 (decode_chunk [1])]\<rparr>"
  by (simp add: speaking_def eval_defs)

lemma run_Cons: "run s (e # evs) = run (step s e) evs"
  by (simp add: run_def)

lemma run_Nil: "run s [] = s"
  by (simp add: run_def)

lemma run_append: "run s (evs @ evs') = run (run s evs) evs'"
  by (simp add: run_def)

lemma run_retriggered:
  "run ready retriggered =
     ready\<lparr>isAssistantSpeaking := True, isAssistantSpeakingUI := True, isPlaying := True,
       lastInterruptTime := 1100, speechFrames := 1, currentAudioSource := Some 0,
       nextSourceId := 1, sounding := [0], awaiting := [0],
       effects := [Send (InputAudioBufferAppend (convertToPCM16 loud)),
                   Console UserSpeechDetected, Console BargeInInterrupting,
                   Send ResponseCancel, Send OutputAudioBufferClear, Console InterruptComplete,
                   Send (InputAudioBufferAppend (convertToPCM16 loud)),
                   SourceStart 0 (decode_chunk [1]),
                   Send (InputAudioBufferAppend (convertToPCM16 loud))]\<rparr>"
  by (simp add: retriggered_def run_def ready_def ws_open_def onaudioprocess_def detect_def
      average_loud speechThreshold_eq consecutiveFrames_def emit_def interrupt_def Let_def
      stop_current_def playAudioDelta_def Int16Array_one playAudioQueue_def consume_def
      createBuffer_def decode_chunk_Nil_iff)



subsection \<open>The interrupt action sequence\<close>

lemma removeAll_Nil_iff: "removeAll x xs = [] \<longleftrightarrow> (\<forall>y \<in> set xs. y = x)"
  by (induction xs) auto

lemma interrupt_executed:
  assumes "ws_open s" and "\<not> now - lastInterruptTime s < 500"
  shows "interrupt now s =
     emit (Console InterruptComplete)
       ((stop_current
          (emit (Send OutputAudioBufferClear)
            (emit (Send ResponseCancel)
              (emit (Console BargeInInterrupting) (s\<lparr>lastInterruptTime := now\<rparr>)))))
        \<lparr>audioQueue := [], isPlaying := False, isAssistantSpeaking := False, speechFrames := 0\<rparr>)"
  using assms by (simp add: interrupt_def Let_def)

lemma interrupt_rejected:
  "\<not> ws_open s \<or> now - lastInterruptTime s < 500 \<Longrightarrow> interrupt now s = s"
  by (auto simp add: interrupt_def)

text \<open>
  What an executed call of \<open>interrupt\<close> does: it records the time of the call, then hands
  \<open>response.cancel\<close> and \<open>output_audio_buffer.clear\<close> to the socket, then stops the current
  source, and leaves the queue of pending chunks empty, \<open>isPlayingRef\<close> and
  \<open>isAssistantSpeakingRef\<close> false and \<open>speechFramesRef\<close> at 0. The current source is no
  longer sounding; nothing sounds afterwards when it was the only source sounding.
\<close>

lemma interrupt_executed_sequence:
  assumes "ws_open s" and "\<not> now - lastInterruptTime s < 500"
  shows "lastInterruptTime (interrupt now s) = now
    \<and> effects (interrupt now s) =
        effects s @ [Console BargeInInterrupting, Send ResponseCancel, Send OutputAudioBufferClear]
          @ (case currentAudioSource s of None \<Rightarrow> []
             | Some src \<Rightarrow> if src < nextSourceId s then [SourceStop src] else [])
          @ [Console InterruptComplete]
    \<and> (\<forall>src. currentAudioSource s = Some src \<and> src < nextSourceId s \<longrightarrow>
           src \<notin> set (sounding (interrupt now s)) \<and> currentAudioSource (interrupt now s) = None)
    \<and> audioQueue (interrupt now s) = []
    \<and> \<not> isPlaying (interrupt now s)
    \<and> \<not> isAssistantSpeaking (interrupt now s)
    \<and> speechFrames (interrupt now s) = 0
    \<and> turnState (interrupt now s) = UserTurn
    \<and> ((\<forall>x \<in> set (sounding s). currentAudioSource s = Some x \<and> x < nextSourceId s) \<longrightarrow>
           sounding (interrupt now s) = [])"
proof -
  have silent: "sounding (interrupt now s) = []"
    if only: "\<forall>x \<in> set (sounding s). currentAudioSource s = Some x \<and> x < nextSourceId s"
  proof (cases "sounding s")
    case Nil
    then show ?thesis
      unfolding interrupt_executed [OF assms]
      by (simp add: emit_def stop_current_def source_stop_def split: option.splits)
  next
    case (Cons x xs)
    with only have "currentAudioSource s = Some x" and "x < nextSourceId s"
      by simp_all
    moreover from only Cons have "\<forall>y \<in> set (sounding s). y = x"
      by auto
    ultimately show ?thesis
      unfolding interrupt_executed [OF assms]
      by (simp add: emit_def stop_current_def source_stop_def removeAll_Nil_iff)
  qed
  have rest: "lastInterruptTime (interrupt now s) = now
    \<and> effects (interrupt now s) =
        effects s @ [Console BargeInInterrupting, Send ResponseCancel, Send OutputAudioBufferClear]
          @ (case currentAudioSource s of None \<Rightarrow> []
             | Some src \<Rightarrow> if src < nextSourceId s then [SourceStop src] else [])
          @ [Console InterruptComplete]
    \<and> (\<forall>src. currentAudioSource s = Some src \<and> src < nextSourceId s \<longrightarrow>
           src \<notin> set (sounding (interrupt now s)) \<and> currentAudioSource (interrupt now s) = None)
    \<and> audioQueue (interrupt now s) = []
    \<and> \<not> isPlaying (interrupt now s)
    \<and> \<not> isAssistantSpeaking (interrupt now s)
    \<and> speechFrames (interrupt now s) = 0
    \<and> turnState (interrupt now s) = UserTurn"
    unfolding interrupt_executed [OF assms] using assms(1)
    by (auto simp add: emit_def stop_current_def source_stop_def turnState_def ws_open_def
        split: option.splits)
  from rest silent show ?thesis by blast
qed

subsection \<open>The cooldown\<close>

lemma sent_of_append: "sent_of (es @ fs) = sent_of es @ sent_of fs"
  by (induction es rule: sent_of.induct) simp_all

lemma consume_frame:
  "sent_of (effects (consume s)) = sent_of (effects s)
   \<and> lastInterruptTime (consume s) = lastInterruptTime s"
  by (simp add: consume_def Let_def emit_def sent_of_append split: list.splits sum.splits)

lemma playAudioQueue_frame:
  "sent_of (effects (playAudioQueue s)) = sent_of (effects s)
   \<and> lastInterruptTime (playAudioQueue s) = lastInterruptTime s"
  by (simp add: playAudioQueue_def consume_frame)

lemma source_onended_frame:
  "sent_of (effects (source_onended src s)) = sent_of (effects s)
   \<and> lastInterruptTime (source_onended src s) = lastInterruptTime s"
  by (simp add: source_onended_def Let_def consume_frame)

lemma playAudioDelta_frame:
  "sent_of (effects (playAudioDelta d s)) = sent_of (effects s)
   \<and> lastInterruptTime (playAudioDelta d s) = lastInterruptTime s"
  by (simp add: playAudioDelta_def Let_def playAudioQueue_frame emit_def sent_of_append
      split: sum.splits)

lemma ws_onmessage_frame:
  "sent_of (effects (ws_onmessage ev s)) = sent_of (effects s)
   \<and> lastInterruptTime (ws_onmessage ev s) = lastInterruptTime s"
  by (cases ev) (simp_all add: playAudioDelta_frame)

lemma detect_in_cooldown:
  assumes "now - lastInterruptTime s < 500"
  shows "sent_of (effects (detect now avg s)) = sent_of (effects s)
   \<and> lastInterruptTime (detect now avg s) = lastInterruptTime s"
  using assms
  by (simp add: detect_def Let_def interrupt_rejected emit_def sent_of_append)

lemma step_in_cooldown:
  assumes "within_cooldown (lastInterruptTime s) e"
  shows "lastInterruptTime (step s e) = lastInterruptTime s \<and> teardown (step s e) = teardown s"
proof (cases e)
  case (AudioProcess now inputData)
  with assms show ?thesis
    by (simp add: onaudioprocess_def teardown_def sent_def emit_def sent_of_append
        detect_in_cooldown)
next
  case (ClickInterrupt now)
  with assms show ?thesis by (simp add: interrupt_rejected)
next
  case (Message ev)
  then show ?thesis by (simp add: teardown_def sent_def ws_onmessage_frame)
next
  case (SourceEnded src)
  then show ?thesis by (simp add: teardown_def sent_def source_onended_frame)
next
  case SocketError
  then show ?thesis by (simp add: ws_onerror_def)
next
  case SocketClosed
  then show ?thesis by (simp add: ws_onclose_def teardown_def sent_def)
next
  case (ClickDisconnect now)
  with assms show ?thesis
    by (simp add: onConnect_disconnect_def Let_def interrupt_rejected teardown_def sent_def)
qed

lemma run_in_cooldown:
  assumes "\<forall>e \<in> set evs. within_cooldown (lastInterruptTime s) e"
  shows "lastInterruptTime (run s evs) = lastInterruptTime s \<and> teardown (run s evs) = teardown s"
  using assms
proof (induction evs arbitrary: s)
  case Nil
  then show ?case by (simp add: run_def)
next
  case (Cons e evs)
  from Cons.prems have e: "within_cooldown (lastInterruptTime s) e" by simp
  note st = step_in_cooldown [OF e]
  from Cons.prems st have "\<forall>e' \<in> set evs. within_cooldown (lastInterruptTime (step s e)) e'"
    by simp
  from Cons.IH [OF this] st show ?case by (simp add: run_def)
qed

text \<open>
  C2, as stated, fails: the cooldown runs from the last interrupt that was executed.
  After an interrupt executed at 1000 the request at 1400 is rejected and the request at
  1600, 200 ms after it, is executed: it is not a no-op and sends a second
  \<open>response.cancel\<close> and a second \<open>output_audio_buffer.clear\<close>.
\<close>

theorem cooldown_pair_counterexample:
  "(1600 :: int) - 1400 < 500
   \<and> run speaking [ClickInterrupt 1000, ClickInterrupt 1400] = run speaking [ClickInterrupt 1000]
   \<and> teardown (run speaking [ClickInterrupt 1000, ClickInterrupt 1400]) =
        [ResponseCancel, OutputAudioBufferClear]
   \<and> teardown (run speaking [ClickInterrupt 1000, ClickInterrupt 1400, ClickInterrupt 1600]) =
        [ResponseCancel, OutputAudioBufferClear, ResponseCancel, OutputAudioBufferClear]"
  unfolding speaking_eq
  by (simp add: teardown_def sent_def eval_defs)

text \<open>
  C2, amended. Of two requests less than 500 ms apart, the first of which is executed
  (socket open, at least 500 ms since the last executed interrupt), exactly one is
  executed. After the call of \<open>interrupt\<close> executed at time \<open>t1\<close>, every further request
  whose clock reads less than 500 ms after \<open>t1\<close> is a no-op, whether it comes from the
  button or from the detector, and whatever else happens in between: in all, one
  \<open>response.cancel\<close> and one \<open>output_audio_buffer.clear\<close> have been sent.
\<close>

theorem cooldown_single_sequence:
  assumes "ws_open s" and "\<not> t1 - lastInterruptTime s < 500"
    and "\<forall>e \<in> set evs. within_cooldown t1 e"
  shows "teardown (run (interrupt t1 s) evs) = teardown s @ [ResponseCancel, OutputAudioBufferClear]
    \<and> (\<forall>t2. t2 - t1 < 500 \<longrightarrow>
          interrupt t2 (run (interrupt t1 s) evs) = run (interrupt t1 s) evs)"
proof -
  have t1: "lastInterruptTime (interrupt t1 s) = t1"
    unfolding interrupt_executed [OF assms(1,2)]
    by (simp add: emit_def stop_current_def source_stop_def split: option.splits)
  have td: "teardown (interrupt t1 s) = teardown s @ [ResponseCancel, OutputAudioBufferClear]"
    unfolding interrupt_executed [OF assms(1,2)]
    by (simp add: teardown_def sent_def emit_def stop_current_def source_stop_def sent_of_append
        split: option.splits)
  from assms(3) t1 have "\<forall>e \<in> set evs. within_cooldown (lastInterruptTime (interrupt t1 s)) e"
    by simp
  from run_in_cooldown [OF this] t1 td show ?thesis
    by (simp add: interrupt_rejected)
qed

theorem cooldown_single_sequence_witness:
  "ws_open speaking \<and> \<not> 1000 - lastInterruptTime speaking < 500
   \<and> within_cooldown 1000 (ClickInterrupt 1100)
   \<and> teardown (run (interrupt 1000 speaking) [ClickInterrupt 1100]) =
        [ResponseCancel, OutputAudioBufferClear]
   \<and> interrupt 1100 (run (interrupt 1000 speaking) [ClickInterrupt 1100]) =
        run (interrupt 1000 speaking) [ClickInterrupt 1100]"
proof -
  have h1: "ws_open speaking"
    unfolding speaking_eq by (simp add: ready_def ws_open_def)
  have h2: "\<not> 1000 - lastInterruptTime speaking < 500"
    unfolding speaking_eq by (simp add: ready_def)
  have h3: "\<forall>e \<in> set [ClickInterrupt 1100]. within_cooldown 1000 e"
    by simp
  have "teardown speaking = []"
    unfolding speaking_eq by (simp add: teardown_def sent_def ready_def)
  with cooldown_single_sequence [OF h1 h2 h3] h1 h2 h3 show ?thesis
    by simp
qed

subsection \<open>The detector\<close>



lemma triggers_append: "triggers (es @ fs) = triggers es + triggers fs"
  by (simp add: triggers_def)

lemma triggers_stop_current: "triggers (effects (stop_current s)) = triggers (effects s)"
  by (simp add: stop_current_def source_stop_def emit_def triggers_def split: option.splits)

lemma triggers_interrupt: "triggers (effects (interrupt now s)) = triggers (effects s)"
  by (simp add: interrupt_def Let_def emit_def triggers_append triggers_stop_current)
     (simp add: triggers_def)




lemma onaudioprocess_trigger:
  assumes "ws_open s" and "isAssistantSpeaking s" and "voiced f"
    and "consecutiveFrames \<le> speechFrames s + 1"
  shows "triggers (effects (onaudioprocess now f s)) = triggers (effects s) + 1"
    and "speechFrames (onaudioprocess now f s) =
          (if now - lastInterruptTime s < 500 then speechFrames s + 1 else 0)"
proof -
  let ?s1 = "emit (Console UserSpeechDetected) (s\<lparr>speechFrames := speechFrames s + 1\<rparr>)"
  have d: "detect now (average f) s = interrupt now ?s1"
    using assms by (simp add: detect_def Let_def voiced_def)
  show "triggers (effects (onaudioprocess now f s)) = triggers (effects s) + 1"
    using assms(1)
    by (simp add: onaudioprocess_def d emit_def triggers_append triggers_interrupt)
       (simp add: triggers_def emit_def)
  have open1: "ws_open ?s1"
    using assms(1) by (simp add: ws_open_def emit_def)
  show "speechFrames (onaudioprocess now f s) =
          (if now - lastInterruptTime s < 500 then speechFrames s + 1 else 0)"
  proof (cases "now - lastInterruptTime s < 500")
    case True
    then have "interrupt now ?s1 = ?s1"
      by (simp add: interrupt_rejected emit_def)
    with True assms(1) show ?thesis
      by (simp add: onaudioprocess_def d emit_def)
  next
    case False
    then have "\<not> now - lastInterruptTime ?s1 < 500"
      by (simp add: emit_def)
    from interrupt_executed [OF open1 this] False assms(1) show ?thesis
      by (simp add: onaudioprocess_def d emit_def)
  qed
qed


lemma voiced_loud: "voiced loud"
  by (simp add: voiced_def average_loud speechThreshold_eq)





subsection \<open>The detector outside the assistant's turn\<close>



subsection \<open>The counter after a trigger\<close>

text \<open>
  C5, as stated, fails: a trigger that \<open>interrupt\<close> rejects because of the cooldown leaves
  the counter at its incremented value.
\<close>

theorem trigger_reset_counterexample:
  "turnState (run ready retriggered) = AssistantTurn \<and> voiced loud
   \<and> speechFrames (run ready retriggered) + 1 = consecutiveFrames
   \<and> triggers (effects (onaudioprocess 1300 loud (run ready retriggered))) =
       triggers (effects (run ready retriggered)) + 1
   \<and> speechFrames (onaudioprocess 1300 loud (run ready retriggered)) = 2"
  unfolding run_retriggered
  by (simp add: voiced_loud turnState_def ws_open_def ready_def
      consecutiveFrames_def triggers_def onaudioprocess_def detect_def average_loud
      speechThreshold_eq emit_def interrupt_def)

text \<open>
  C5, amended. In the assistant's turn a voiced frame that brings the counter to
  \<open>consecutiveFrames\<close> or beyond triggers. The counter is reset to 0 when the interrupt is
  executed (cooldown elapsed) and keeps its incremented value when the interrupt is
  rejected by the cooldown.
\<close>

theorem trigger_reset_on_execution:
  assumes "turnState s = AssistantTurn" and "voiced f"
    and "consecutiveFrames \<le> speechFrames s + 1"
  shows "triggers (effects (onaudioprocess now f s)) = triggers (effects s) + 1
    \<and> speechFrames (onaudioprocess now f s) =
         (if now - lastInterruptTime s < 500 then speechFrames s + 1 else 0)"
proof -
  from assms(1) have "ws_open s" and "isAssistantSpeaking s"
    by (auto simp add: turnState_def split: if_splits)
  from onaudioprocess_trigger [OF this assms(2,3)] show ?thesis
    by simp
qed

theorem trigger_reset_on_execution_witness:
  "turnState (run ready retriggered) = AssistantTurn \<and> voiced loud
   \<and> consecutiveFrames \<le> speechFrames (run ready retriggered) + 1
   \<and> triggers (effects (onaudioprocess 1300 loud (run ready retriggered))) = 2
   \<and> speechFrames (onaudioprocess 1300 loud (run ready retriggered)) = 2
   \<and> triggers (effects (onaudioprocess 1600 loud (run ready retriggered))) = 2
   \<and> speechFrames (onaudioprocess 1600 loud (run ready retriggered)) = 0"
proof -
  have a: "turnState (run ready retriggered) = AssistantTurn"
    and c: "consecutiveFrames \<le> speechFrames (run ready retriggered) + 1"
    and t: "triggers (effects (run ready retriggered)) = 1"
    and l: "lastInterruptTime (run ready retriggered) = 1100"
    and n: "speechFrames (run ready retriggered) = 1"
    unfolding run_retriggered
    by (simp_all add: turnState_def ws_open_def ready_def consecutiveFrames_def triggers_def)
  from trigger_reset_on_execution [OF a voiced_loud c, of 1300]
       trigger_reset_on_execution [OF a voiced_loud c, of 1600] a c t l n voiced_loud
  show ?thesis by simp
qed

subsection \<open>Audio deltas and the turn state\<close>

lemma run_interrupted:
  "run ready interrupted =
     ready\<lparr>isAssistantSpeakingUI := True, lastInterruptTime := 1000,
       nextSourceId := 1, awaiting := [0],
       effects := [SourceStart 0 (decode_chunk [1]), Console BargeInInterrupting,
                   Send ResponseCancel, Send OutputAudioBufferClear, SourceStop 0,
                   Console InterruptComplete]\<rparr>"
  by (simp add: interrupted_def eval_defs)

lemma consume_keeps:
  "isAssistantSpeaking (consume s) = isAssistantSpeaking s \<and> ws (consume s) = ws s"
  by (simp add: consume_def Let_def emit_def split: list.splits sum.splits)

lemma playAudioQueue_keeps:
  "isAssistantSpeaking (playAudioQueue s) = isAssistantSpeaking s \<and> ws (playAudioQueue s) = ws s"
  by (simp add: playAudioQueue_def consume_keeps)

text \<open>
  C7, as stated, fails: a chunk that arrives after an interrupt, in the user's turn, is
  not discarded; it starts to play at once.
\<close>

theorem trailing_audio_played:
  "turnState (run ready interrupted) = UserTurn
   \<and> effects (step (run ready interrupted) (Message (ResponseAudioDelta (Base64 [4, 0])))) =
       effects (run ready interrupted) @ [SourceStart 1 (decode_chunk [4])]
   \<and> sounding (step (run ready interrupted) (Message (ResponseAudioDelta (Base64 [4, 0])))) = [1]"
  unfolding run_interrupted
  by (simp add: turnState_def eval_defs)

text \<open>
  C7, amended. The handler of \<open>response.audio.delta\<close> does not look at the turn state:
  it sets \<open>isAssistantSpeakingRef\<close>, so that with the socket open the turn state after it
  is \<open>AssistantTurn\<close>, and what it does is the same whether the flag was set or not when
  the chunk arrived. A chunk that decodes is appended to the queue when \<open>isPlayingRef\<close>
  is set; when \<open>isPlayingRef\<close> is not set, the audio context exists, the queue is empty
  and the chunk has at least one sample, the chunk starts to play at once.
\<close>

theorem audio_delta_enqueued:
  assumes "atob delta = Inr bytes" and "Int16Array bytes = Inr pcm16"
  shows "ws_onmessage (ResponseAudioDelta delta) (s\<lparr>isAssistantSpeaking := b\<rparr>) =
           ws_onmessage (ResponseAudioDelta delta) s
    \<and> isAssistantSpeaking (ws_onmessage (ResponseAudioDelta delta) s)
    \<and> (ws_open s \<longrightarrow> turnState (ws_onmessage (ResponseAudioDelta delta) s) = AssistantTurn)
    \<and> (isPlaying s \<longrightarrow>
          audioQueue (ws_onmessage (ResponseAudioDelta delta) s) = audioQueue s @ [pcm16])
    \<and> (\<not> isPlaying s \<and> audioContext s \<and> audioQueue s = [] \<and> pcm16 \<noteq> [] \<longrightarrow>
          effects (ws_onmessage (ResponseAudioDelta delta) s) =
            effects s @ [SourceStart (nextSourceId s) (decode_chunk pcm16)]
          \<and> sounding (ws_onmessage (ResponseAudioDelta delta) s) = sounding s @ [nextSourceId s])"
proof -
  let ?s1 = "s\<lparr>isAssistantSpeaking := True, audioQueue := audioQueue s @ [pcm16]\<rparr>"
  have r: "ws_onmessage (ResponseAudioDelta delta) s =
      (if isPlaying s then ?s1 else playAudioQueue ?s1)"
    using assms by (simp add: playAudioDelta_def Let_def)
  have same: "ws_onmessage (ResponseAudioDelta delta) (s\<lparr>isAssistantSpeaking := b\<rparr>) =
           ws_onmessage (ResponseAudioDelta delta) s"
    by simp
  have sp: "isAssistantSpeaking (ws_onmessage (ResponseAudioDelta delta) s)"
    and w: "ws (ws_onmessage (ResponseAudioDelta delta) s) = ws s"
    unfolding r by (simp_all add: playAudioQueue_keeps)
  have q: "audioQueue (ws_onmessage (ResponseAudioDelta delta) s) = audioQueue s @ [pcm16]"
    if "isPlaying s"
    using that unfolding r by simp
  have st: "effects (ws_onmessage (ResponseAudioDelta delta) s) =
            effects s @ [SourceStart (nextSourceId s) (decode_chunk pcm16)]
          \<and> sounding (ws_onmessage (ResponseAudioDelta delta) s) = sounding s @ [nextSourceId s]"
    if "\<not> isPlaying s \<and> audioContext s \<and> audioQueue s = [] \<and> pcm16 \<noteq> []"
    using that unfolding r
    by (simp add: playAudioQueue_def consume_def Let_def createBuffer_def
        decode_chunk_Nil_iff emit_def)
  from same sp w q st show ?thesis
    by (simp add: turnState_def ws_open_def)
qed

theorem audio_delta_enqueued_witness:
  "atob (Base64 [4, 0]) = Inr [4, 0] \<and> Int16Array [4, 0] = Inr [4]
   \<and> turnState (run ready interrupted) = UserTurn
   \<and> ws_open (run ready interrupted)
   \<and> turnState (ws_onmessage (ResponseAudioDelta (Base64 [4, 0])) (run ready interrupted))
        = AssistantTurn
   \<and> \<not> isPlaying (run ready interrupted) \<and> audioContext (run ready interrupted)
   \<and> audioQueue (run ready interrupted) = [] \<and> [4 :: int16] \<noteq> []
   \<and> sounding (ws_onmessage (ResponseAudioDelta (Base64 [4, 0])) (run ready interrupted)) = [1]
   \<and> isPlaying speaking
   \<and> audioQueue (ws_onmessage (ResponseAudioDelta (Base64 [4, 0])) speaking) =
        [[2], [3], [4], [4]]
   \<and> ws_onmessage (ResponseAudioDelta (Base64 [4, 0])) (speaking\<lparr>isAssistantSpeaking := False\<rparr>)
        = ws_onmessage (ResponseAudioDelta (Base64 [4, 0])) speaking"
proof -
  have a: "atob (Base64 [4, 0]) = Inr [4, 0]" by simp
  have facts: "turnState (run ready interrupted) = UserTurn" "ws_open (run ready interrupted)"
    "\<not> isPlaying (run ready interrupted)" "audioContext (run ready interrupted)"
    "audioQueue (run ready interrupted) = []" "sounding (run ready interrupted) = []"
    "nextSourceId (run ready interrupted) = 1"
    unfolding run_interrupted by (simp_all add: turnState_def ws_open_def ready_def)
  have sp: "isPlaying speaking" "audioQueue speaking = [[2], [3], [4]]"
    unfolding speaking_eq by (simp_all add: ready_def)
  from audio_delta_enqueued [OF a Int16Array_four, where s = "run ready interrupted"]
       audio_delta_enqueued [OF a Int16Array_four, where s = speaking and b = False]
       a Int16Array_four facts sp
  show ?thesis by simp
qed

subsection \<open>One chunk at a time\<close>

text \<open>
  C6. The code breaks the claim. \<open>interrupt\<close> clears \<open>isPlayingRef\<close> while the run of
  \<open>playAudioQueue\<close> that played the stopped source is still suspended. A chunk that
  arrives before the \<open>onended\<close> callback of the stopped source starts a second run;
  the first run then resumes, finds the queue empty and clears \<open>isPlayingRef\<close> again, so
  that the next chunk starts a third run while the chunk of the second is still
  sounding: sources 1 and 2 sound together. The chunks queued before the interrupt
  (\<open>[2]\<close> and \<open>[3]\<close>) are never started.
\<close>

theorem overlapping_playback:
  "sounding (run ready (interrupted @
      [Message (ResponseAudioDelta (Base64 [4, 0])), SourceEnded 0,
       Message (ResponseAudioDelta (Base64 [5, 0]))])) = [1, 2]
   \<and> effects (run ready (interrupted @
      [Message (ResponseAudioDelta (Base64 [4, 0])), SourceEnded 0,
       Message (ResponseAudioDelta (Base64 [5, 0]))])) =
     [SourceStart 0 (decode_chunk [1]), Console BargeInInterrupting,
      Send ResponseCancel, Send OutputAudioBufferClear, SourceStop 0,
      Console InterruptComplete, SourceStart 1 (decode_chunk [4]),
      SourceStart 2 (decode_chunk [5])]"
  unfolding run_append run_interrupted
  by (simp add: eval_defs)

lemma run_overlapped:
  "run ready overlapped =
     ready\<lparr>isAssistantSpeaking := True, isAssistantSpeakingUI := True, isPlaying := True,
       lastInterruptTime := 1000, currentAudioSource := Some 2, nextSourceId := 3,
       sounding := [1, 2], awaiting := [1, 2],
       effects := [SourceStart 0 (decode_chunk [1]), Console BargeInInterrupting,
                   Send ResponseCancel, Send OutputAudioBufferClear, SourceStop 0,
                   Console InterruptComplete, SourceStart 1 (decode_chunk [4]),
                   SourceStart 2 (decode_chunk [5])]\<rparr>"
  unfolding overlapped_def run_append run_interrupted
  by (simp add: eval_defs)

text \<open>
  C1. The code breaks the last part of the claim, by the defect of C6. \<open>interrupt\<close> stops
  the one source held in \<open>currentAudioSourceRef\<close>. In the state reached by the run above
  sources 1 and 2 sound together; an interrupt at 2000 finds the socket open and the
  cooldown elapsed and executes the whole sequence (\<open>response.cancel\<close>,
  \<open>output_audio_buffer.clear\<close>, stop of source 2, queue and flags cleared), and source 1
  goes on sounding.
\<close>

theorem interrupt_leaves_source_sounding:
  "sounding (run ready overlapped) = [1, 2]
   \<and> ws_open (run ready overlapped) \<and> \<not> 2000 - lastInterruptTime (run ready overlapped) < 500
   \<and> effects (step (run ready overlapped) (ClickInterrupt 2000)) =
        effects (run ready overlapped) @
          [Console BargeInInterrupting, Send ResponseCancel, Send OutputAudioBufferClear,
           SourceStop 2, Console InterruptComplete]
   \<and> audioQueue (step (run ready overlapped) (ClickInterrupt 2000)) = []
   \<and> \<not> isPlaying (step (run ready overlapped) (ClickInterrupt 2000))
   \<and> \<not> isAssistantSpeaking (step (run ready overlapped) (ClickInterrupt 2000))
   \<and> speechFrames (step (run ready overlapped) (ClickInterrupt 2000)) = 0
   \<and> sounding (step (run ready overlapped) (ClickInterrupt 2000)) = [1]"
  unfolding run_overlapped
  by (simp add: eval_defs)

subsection \<open>The socket closes\<close>

text \<open>
  C8. The code breaks the claim. \<open>ws.onclose\<close> only clears the React states \<open>connected\<close>
  and \<open>isListening\<close>: the source keeps sounding, the queued chunk stays queued and is
  played when the first ends, \<open>isAssistantSpeakingRef\<close> stays set and \<open>speechFramesRef\<close>
  keeps its value. \<open>ws.onerror\<close> only sets the error text shown on the page.
\<close>

theorem close_leaves_playback:
  "turnState (run ready [Message ResponseCreated, Message (ResponseAudioDelta (Base64 [1, 0])),
      Message (ResponseAudioDelta (Base64 [2, 0])), AudioProcess 1000 loud, SocketClosed]) = Idle
   \<and> run ready [Message ResponseCreated, Message (ResponseAudioDelta (Base64 [1, 0])),
      Message (ResponseAudioDelta (Base64 [2, 0])), AudioProcess 1000 loud, SocketClosed] =
     ready\<lparr>ws := Some CLOSED, connected := False, isListening := False,
        isAssistantSpeaking := True, isAssistantSpeakingUI := True,
        isPlaying := True, audioQueue := [[2]], currentAudioSource := Some 0,
        speechFrames := 1, nextSourceId := 1, sounding := [0], awaiting := [0],
        effects := [SourceStart 0 (decode_chunk [1]),
                    Send (InputAudioBufferAppend (convertToPCM16 loud))]\<rparr>
   \<and> sounding (run ready [Message ResponseCreated, Message (ResponseAudioDelta (Base64 [1, 0])),
      Message (ResponseAudioDelta (Base64 [2, 0])), AudioProcess 1000 loud, SocketClosed,
      SourceEnded 0]) = [1]"
  by (simp add: turnState_def eval_defs)

text \<open>The Disconnect button does tear down what \<open>ws.onclose\<close> leaves.\<close>

lemma onConnect_disconnect_tears_down:
  assumes "connected s" and "ws_open s" and "audioContext s"
    and "\<not> now - lastInterruptTime s < 500"
  shows "audioQueue (step s (ClickDisconnect now)) = []
    \<and> sounding (step s (ClickDisconnect now)) = []
    \<and> \<not> isPlaying (step s (ClickDisconnect now))
    \<and> \<not> isAssistantSpeaking (step s (ClickDisconnect now))
    \<and> speechFrames (step s (ClickDisconnect now)) = 0"
  using assms
  by (simp add: onConnect_disconnect_def Let_def interrupt_executed emit_def stop_current_def
      source_stop_def split: option.splits)

subsection \<open>Chunks that fail\<close>

text \<open>A payload that does not decode is logged and dropped by \<open>playAudioDelta\<close>; the
  queue is not touched.\<close>

lemma undecodable_chunk_dropped:
  assumes "atob delta = Inl e \<or> (\<exists>bytes. atob delta = Inr bytes \<and> Int16Array bytes = Inl e)"
  shows "playAudioDelta delta s = emit (Console (AudioPlaybackError e)) s"
  using assms by (auto simp add: playAudioDelta_def)

text \<open>Once \<open>isPlayingRef\<close> is set and no run of \<open>playAudioQueue\<close> is suspended, no message
  of the socket starts a source or clears the flag, and no \<open>onended\<close> callback is left to
  do it.\<close>

lemma stalled_message:
  assumes "isPlaying s" and "awaiting s = []"
  shows "isPlaying (step s (Message m)) \<and> awaiting (step s (Message m)) = []
    \<and> sounding (step s (Message m)) = sounding s"
proof (cases m)
  case (ResponseAudioDelta delta)
  with assms show ?thesis
    by (simp add: playAudioDelta_def emit_def split: sum.splits)
qed (use assms in simp_all)

lemma stalled_messages:
  assumes "isPlaying s" and "awaiting s = []"
  shows "isPlaying (run s (map Message ms)) \<and> awaiting (run s (map Message ms)) = []
    \<and> sounding (run s (map Message ms)) = sounding s"
  using assms
proof (induction ms arbitrary: s)
  case Nil
  then show ?case by (simp add: run_Nil)
next
  case (Cons m ms)
  from stalled_message [OF Cons.prems, of m] Cons.IH [of "step s (Message m)"]
  show ?case by (simp add: run_Cons)
qed

lemma stalled_onended:
  assumes "awaiting s = []"
  shows "step s (SourceEnded src) = s"
  using assms by (simp add: source_onended_def)

text \<open>
  C9. The code breaks the claim for a chunk that fails to play. A delta of no samples
  decodes to an empty chunk; \<open>createBuffer\<close> rejects it inside \<open>playAudioQueue\<close>, whose
  promise nobody awaits, so the \<open>catch\<close> of \<open>playAudioDelta\<close> does not see the exception.
  The run ends with \<open>isPlayingRef\<close> still set: the chunks that follow are queued and
  never played.
\<close>

theorem empty_chunk_stalls_queue:
  "run ready [Message ResponseCreated, Message (ResponseAudioDelta (Base64 [])),
      Message (ResponseAudioDelta (Base64 [1, 0])), Message (ResponseAudioDelta (Base64 [2, 0]))] =
     ready\<lparr>isAssistantSpeaking := True, isAssistantSpeakingUI := True,
        isPlaying := True, audioQueue := [[1], [2]],
        effects := [UnhandledRejection NotSupportedError]\<rparr>"
  by (simp add: eval_defs Int16Array_def)

subsection \<open>The sample codec\<close>

lemma to_double_sample_one:
  "to_double (Finite (1 / 32767)) = Finite (35185445863425 / 1152921504606846976)"
proof -
  have "binade \<bar>1 / 32767\<bar> 1023 (- 1022) = - 15"
    by (rule binade_eq) (simp_all add: pow2_def)
  then have "round_binary 53 (- 1022) 1023 (1 / 32767) =
      Finite (35185445863425 / 1152921504606846976)"
    by (rule round_binary_eval)
       (simp_all add: pow2_def round_half_even_def floor_rat_numeral)
  then show ?thesis by simp
qed

lemma to_float32_sample_one:
  "to_float32 (Finite (35185445863425 / 1152921504606846976)) = Finite (32769 / 1073741824)"
proof -
  have "binade \<bar>35185445863425 / 1152921504606846976\<bar> 127 (- 126) = - 15"
    by (rule binade_eq) (simp_all add: pow2_def)
  then have "round_binary 24 (- 126) 127 (35185445863425 / 1152921504606846976) =
      Finite (32769 / 1073741824)"
    by (rule round_binary_eval)
       (simp_all add: pow2_def round_half_even_def floor_rat_numeral)
  then show ?thesis by simp
qed

lemma int16_to_float32_one: "int16_to_float32 1 = Finite (32769 / 1073741824)"
  using to_double_sample_one to_float32_sample_one
  by (simp add: int16_to_float32_def)

text \<open>
  C10, as stated, fails: the sample 1 is decoded to the float32 nearest to \<open>1 / 32767\<close>,
  which lies below it, and \<open>convertToPCM16\<close> truncates the product with \<open>0x7fff\<close> to 0.
\<close>

theorem pcm16_roundtrip_counterexample:
  "sample_to_int16 (int16_to_float32 1) = 0"
  by (simp add: int16_to_float32_one sample_to_int16_def scale_sample_def truncate_def floor_rat_numeral)

lemma sint16_range: "- 32768 \<le> sint (v :: int16) \<and> sint v < 32768"
  using sint_ge [of v] sint_lt [of v] by simp

lemma truncate_of_int: "truncate (of_int n) = n"
  by (simp add: truncate_def)

lemma clamp_unit:
  "- 1 \<le> x \<Longrightarrow> x \<le> 1 \<Longrightarrow> Math_max (Finite (- 1)) (Math_min (Finite 1) (Finite x)) = Finite x"
  by auto

lemma roundtrip_nonpositive:
  assumes "sint (v :: int16) \<le> 0"
  shows "int16_to_float32 v = Finite (of_int (sint v) / 32768)"
    and "sample_to_int16 (int16_to_float32 v) = v"
proof -
  define n where "n = sint v"
  define x :: rat where "x = of_int n / 2 ^ 15"
  from sint16_range [of v] assms have n: "- 32768 \<le> n" "n \<le> 0"
    by (simp_all add: n_def)
  then have x1: "\<bar>x\<bar> \<le> 1" and xr: "- 1 \<le> x" "x \<le> 0"
    by (simp_all add: x_def field_simps)
  have q: "js_divide (Finite (of_int (sint v))) (Finite (if sint v < 0 then 32768 else 32767))
            = Finite x"
    using n by (cases "n = 0") (simp_all add: n_def [symmetric] x_def)
  have d: "to_double (Finite x) = Finite x"
    using round_binary_exact [OF x_def x1, of "- 1022" 1023 53] by simp
  have f: "to_float32 (Finite x) = Finite x"
    using round_binary_exact [OF x_def x1, of "- 126" 127 24] by simp
  show dec: "int16_to_float32 v = Finite (of_int (sint v) / 32768)"
    unfolding int16_to_float32_def q d f by (simp add: x_def n_def)
  have cl: "Math_max (Finite (- 1)) (Math_min (Finite 1) (Finite x)) = Finite x"
    using xr by (intro clamp_unit) simp_all
  have "sample_to_int16 (Finite x) = word_of_int n"
  proof (cases "x < 0")
    case True
    have "x * 32768 = of_int n" by (simp add: x_def)
    with True show ?thesis
      by (simp add: sample_to_int16_def scale_sample_def Let_def cl truncate_of_int del: Math_max.simps Math_min.simps)
  next
    case False
    with xr have "x = 0" by simp
    moreover from this have "n = 0" by (simp add: x_def)
    ultimately show ?thesis
      by (simp add: sample_to_int16_def scale_sample_def Let_def truncate_def)
  qed
  then show "sample_to_int16 (int16_to_float32 v) = v"
    unfolding int16_to_float32_def q d f by (simp add: n_def)
qed

lemma roundtrip_positive:
  assumes "0 < sint (v :: int16)"
  shows "sample_to_int16 (int16_to_float32 v) = v \<or> sample_to_int16 (int16_to_float32 v) = v - 1"
proof -
  define n where "n = sint v"
  define x :: rat where "x = of_int n / 32767"
  from sint16_range [of v] assms have n: "0 < n" "n \<le> 32767"
    by (simp_all add: n_def)
  then have xr: "0 < x" "x \<le> 1"
    by (simp_all add: x_def field_simps)
  have q: "js_divide (Finite (of_int (sint v))) (Finite (if sint v < 0 then 32768 else 32767))
            = Finite x"
    using n by (simp add: n_def [symmetric] x_def)
  from xr have "\<bar>x\<bar> < 2" by simp
  from round_binary_error [OF this, of "- 1022" 1023 53]
  obtain d where d: "to_double (Finite x) = Finite d" and dx: "\<bar>d - x\<bar> \<le> pow2 (- 53)"
    by auto
  have p53: "pow2 (- 53) \<le> 1 / 16777216" and p24: "pow2 (- 24) = 1 / 16777216"
    by (simp_all add: pow2_def)
  from dx p53 have dx': "\<bar>d - x\<bar> \<le> 1 / 16777216" by linarith
  with xr have "\<bar>d\<bar> < 2" by linarith
  from round_binary_error [OF this, of "- 126" 127 24]
  obtain f where f: "to_float32 (Finite d) = Finite f" and fd: "\<bar>f - d\<bar> \<le> pow2 (- 24)"
    by auto
  from fd p24 have "\<bar>f - d\<bar> \<le> 1 / 16777216" by simp
  with dx' have fx: "\<bar>f - x\<bar> \<le> 1 / 8388608" by linarith
  define s where "s = min 1 f"
  from n have "1 / 32767 \<le> x" by (simp add: x_def field_simps)
  with fx have f0: "0 < f" by linarith
  then have s0: "0 < s" by (simp add: s_def)
  have cl: "Math_max (Finite (- 1)) (Math_min (Finite 1) (Finite f)) = Finite s"
    using f0 by (auto simp add: s_def)
  have enc: "sample_to_int16 (Finite f) = word_of_int \<lfloor>s * 32767\<rfloor>"
    using s0 by (simp add: sample_to_int16_def scale_sample_def Let_def cl truncate_def
        del: Math_max.simps Math_min.simps)
  have lo: "of_int n - 1 < s * 32767"
  proof (cases "f \<le> 1")
    case True
    then have "s = f" by (simp add: s_def)
    moreover have "of_int n = x * 32767" by (simp add: x_def)
    ultimately show ?thesis using fx by linarith
  next
    case False
    then have "s = 1" by (simp add: s_def)
    with n show ?thesis by simp
  qed
  have hi: "s * 32767 < of_int n + 1"
  proof -
    have "s \<le> f" by (simp add: s_def)
    moreover have "of_int n = x * 32767" by (simp add: x_def)
    ultimately show ?thesis using fx by linarith
  qed
  from lo have "n - 1 \<le> \<lfloor>s * 32767\<rfloor>"
    by (simp add: le_floor_iff)
  moreover from hi have "\<lfloor>s * 32767\<rfloor> \<le> n"
    by (simp add: floor_le_iff)
  ultimately have "\<lfloor>s * 32767\<rfloor> = n \<or> \<lfloor>s * 32767\<rfloor> = n - 1"
    by linarith
  then have "sample_to_int16 (Finite f) = word_of_int n
           \<or> sample_to_int16 (Finite f) = word_of_int (n - 1)"
    using enc by auto
  then show ?thesis
    unfolding int16_to_float32_def q d f by (simp add: n_def)
qed

lemma scale_sample_range:
  "scale_sample x = NaN \<or> (\<exists>y. scale_sample x = Finite y \<and> - 32768 \<le> y \<and> y \<le> 32767)"
proof (cases x)
  case (Finite r)
  then show ?thesis
    by (auto simp add: scale_sample_def Let_def)
qed (simp_all add: scale_sample_def)

lemma length_convertToPCM16: "length (convertToPCM16 xs) = 2 * length xs"
  by (induction xs) (simp_all add: convertToPCM16_def int16_bytes_def)

text \<open>
  C10, amended. Decoding a sample as \<open>playAudioQueue\<close> does and encoding the result as
  \<open>convertToPCM16\<close> does gives the sample back when it is negative or zero, and the
  sample or the sample less one when it is positive. \<open>convertToPCM16\<close> handles every
  input: the value it hands to \<open>setInt16\<close> is NaN (stored as 0) or lies between -32768
  and 32767, and every sample gives two bytes.
\<close>

theorem pcm16_roundtrip:
  "(sint v \<le> 0 \<longrightarrow> sample_to_int16 (int16_to_float32 v) = v)
   \<and> (0 < sint w \<longrightarrow>
        sample_to_int16 (int16_to_float32 w) = w \<or> sample_to_int16 (int16_to_float32 w) = w - 1)
   \<and> (scale_sample x = NaN \<or> (\<exists>y. scale_sample x = Finite y \<and> - 32768 \<le> y \<and> y \<le> 32767))
   \<and> length (convertToPCM16 float32Array) = 2 * length float32Array"
  using roundtrip_nonpositive(2) [of v] roundtrip_positive [of w] scale_sample_range [of x]
    length_convertToPCM16 [of float32Array]
  by blast

theorem pcm16_roundtrip_witness:
  "sint (- 5 :: int16) \<le> 0 \<and> sample_to_int16 (int16_to_float32 (- 5)) = - 5
   \<and> 0 < sint (2 :: int16)
   \<and> (sample_to_int16 (int16_to_float32 2) = 2 \<or> sample_to_int16 (int16_to_float32 2) = 1)"
  using pcm16_roundtrip [of "- 5" 2]
  by simp

end
